theory Spec2Isabelle
  imports Main "HOL-Library.Sublist"
begin

section \<open>Strings\<close>

text \<open>
  A Go \<open>string\<close> is a sequence of bytes, and so is \<^typ>\<open>string\<close> here. The three
  patterns of \<open>NewScraper\<close> and \<open>strings.Contains\<close> only look at the ASCII bytes
  \<open><\<close>, \<open>>\<close>, \<open>/\<close>, letters and the line feed, none of which occurs inside a
  multi-byte UTF-8 sequence, so they are modelled on bytes.
\<close>

abbreviation LF :: char where "LF \<equiv> CHR 0x0A"

subsection \<open>The regular expressions of \<open>NewScraper\<close>\<close>

text \<open>
  Go's \<open>regexp\<close> returns the match a backtracking matcher finds first (leftmost, and
  at one start position the alternatives in priority order). The patterns are written
  with two matcher combinators in continuation-passing style: the continuation is the
  rest of the pattern, it receives the input that is left, and \<open>None\<close> is a failure
  that makes the caller try its next alternative.

  \<open>lit p\<close> is the literal text \<open>p\<close>. \<open>lazyAny\<close> is \<open>.*?\<close>: it first tries the rest
  of the pattern, and only when that fails consumes one more character, which must not
  be a line feed (no \<open>s\<close> flag is set).
\<close>

definition lit :: "string \<Rightarrow> (string \<Rightarrow> 'a option) \<Rightarrow> string \<Rightarrow> 'a option" where
  "lit p k s = (if prefix p s then k (drop (length p) s) else None)"

fun lazyAny :: "(string \<Rightarrow> 'a option) \<Rightarrow> string \<Rightarrow> 'a option" where
  "lazyAny k [] = k []"
| "lazyAny k (c # cs) =
     (case k (c # cs) of
        Some r \<Rightarrow> Some r
      | None \<Rightarrow> if c = LF then None else lazyAny k cs)"

text \<open>
  \<open>tagStripper = <.*?>\<close>, \<open>rowPattern = <tr.*?>.*?</tr>\<close> and
  \<open>cellPattern = <td.*?>(.*?)</td>\<close>, each matched at the start of the input. The
  result is the input left after the match; \<open>cellPattern\<close> also returns the text of
  its capture group, the input between the two positions that enclose it.
\<close>

definition tagStripper :: "string \<Rightarrow> string option" where
  "tagStripper = lit ''<'' (lazyAny (lit ''>'' Some))"

definition rowPattern :: "string \<Rightarrow> string option" where
  "rowPattern = lit ''<tr'' (lazyAny (lit ''>'' (lazyAny (lit ''</tr>'' Some))))"

definition cellPattern :: "string \<Rightarrow> (string \<times> string) option" where
  "cellPattern =
     lit ''<td'' (lazyAny (lit ''>'' (\<lambda>s1.
       lazyAny (\<lambda>s2. lit ''</td>'' (\<lambda>s3. Some (take (length s1 - length s2) s1, s3)) s2) s1)))"

text \<open>The text a match consumed, given the input and what is left of it.\<close>

definition matched :: "string \<Rightarrow> string \<Rightarrow> string" where
  "matched s rest = take (length s - length rest) s"

lemma lit_Some:
  "lit p k s = Some r \<longleftrightarrow> (\<exists>t. s = p @ t \<and> k t = Some r)"
  by (auto simp: lit_def prefix_def)

lemma lazyAny_shorter:
  assumes "lazyAny k s = Some r"
  shows "\<exists>t. k t = Some r \<and> length t \<le> length s"
  using assms
proof (induction s)
  case Nil
  then show ?case by auto
next
  case (Cons c cs)
  show ?case
  proof (cases "k (c # cs)")
    case (Some a)
    with Cons.prems show ?thesis by auto
  next
    case None
    with Cons.prems have "lazyAny k cs = Some r"
      by (simp split: if_splits)
    from Cons.IH[OF this] show ?thesis
      by (auto intro: le_SucI)
  qed
qed

lemma tagStripper_shorter:
  "tagStripper s = Some r \<Longrightarrow> length r < length s"
  unfolding tagStripper_def
  by (auto simp: lit_Some dest!: lazyAny_shorter)

lemma rowPattern_shorter:
  "rowPattern s = Some r \<Longrightarrow> length r < length s"
  unfolding rowPattern_def
  by (auto simp: lit_Some dest!: lazyAny_shorter)

lemma cellPattern_shorter:
  "cellPattern s = Some (g, r) \<Longrightarrow> length r < length s"
  unfolding cellPattern_def
  by (auto simp: lit_Some dest!: lazyAny_shorter)

text \<open>
  \<open>ReplaceAllString(input, "")\<close> with \<open>tagStripper\<close>: the matches are searched from
  left to right, each search starting where the last match ended, and every match is
  replaced by the empty text. No match of the three patterns is empty, so the rule of
  \<open>regexp\<close> for empty matches never applies.
\<close>

function replaceAllString :: "string \<Rightarrow> string" where
  "replaceAllString [] = []"
| "replaceAllString (c # cs) =
     (case tagStripper (c # cs) of
        Some rest \<Rightarrow> replaceAllString rest
      | None \<Rightarrow> c # replaceAllString cs)"
  by pat_completeness auto
termination
  by (relation "measure length") (auto dest: tagStripper_shorter)

text \<open>\<open>rowPattern.FindAllString(html, -1)\<close>: the successive matches of \<open>rowPattern\<close>.\<close>

function findAllString :: "string \<Rightarrow> string list" where
  "findAllString [] = []"
| "findAllString (c # cs) =
     (case rowPattern (c # cs) of
        Some rest \<Rightarrow> matched (c # cs) rest # findAllString rest
      | None \<Rightarrow> findAllString cs)"
  by pat_completeness auto
termination
  by (relation "measure length") (auto dest: rowPattern_shorter)

text \<open>
  \<open>cellPattern.FindAllStringSubmatch(row, -1)\<close>: for each successive match the list of
  the whole match followed by the text of each capture group of the pattern.
\<close>

function findAllStringSubmatch :: "string \<Rightarrow> string list list" where
  "findAllStringSubmatch [] = []"
| "findAllStringSubmatch (c # cs) =
     (case cellPattern (c # cs) of
        Some (g, rest) \<Rightarrow> [matched (c # cs) rest, g] # findAllStringSubmatch rest
      | None \<Rightarrow> findAllStringSubmatch cs)"
  by pat_completeness auto
termination
  by (relation "measure length") (auto dest: cellPattern_shorter)

subsection \<open>\<open>strings.TrimSpace\<close>, \<open>strings.Contains\<close> and \<open>stripTags\<close>\<close>

text \<open>
  \<open>strings.TrimSpace\<close> removes the leading and the trailing white space, as
  \<open>unicode.IsSpace\<close> defines it: the runes of the \<open>White_Space\<close> table. A string
  starts (ends) with a white-space rune exactly when it starts (ends) with the UTF-8
  encoding of one: an invalid byte decodes to \<open>RuneError\<close>, which is no white space.
\<close>

definition spaceRunes :: "nat list" where
  "spaceRunes =
     [0x09, 0x0A, 0x0B, 0x0C, 0x0D, 0x20, 0x85, 0xA0, 0x1680] @ [0x2000 ..< 0x200B] @
     [0x2028, 0x2029, 0x202F, 0x205F, 0x3000]"

definition encodeRune :: "nat \<Rightarrow> string" where
  "encodeRune r =
     (if r < 0x80 then [char_of r]
      else if r < 0x800 then [char_of (0xC0 + r div 0x40), char_of (0x80 + r mod 0x40)]
      else if r < 0x10000 then
        [char_of (0xE0 + r div 0x1000), char_of (0x80 + r div 0x40 mod 0x40),
         char_of (0x80 + r mod 0x40)]
      else
        [char_of (0xF0 + r div 0x40000), char_of (0x80 + r div 0x1000 mod 0x40),
         char_of (0x80 + r div 0x40 mod 0x40), char_of (0x80 + r mod 0x40)])"

definition spaceEncodings :: "string list" where
  "spaceEncodings = map encodeRune spaceRunes"

lemma spaceEncodings_nonempty: "w \<in> set spaceEncodings \<Longrightarrow> w \<noteq> []"
  by (auto simp: spaceEncodings_def encodeRune_def)

lemma find_spaceEncodings_length:
  "find P spaceEncodings = Some w \<Longrightarrow> 0 < length w"
proof -
  assume "find P spaceEncodings = Some w"
  then have "w \<in> set spaceEncodings"
    by (auto simp: find_Some_iff)
  then show ?thesis
    using spaceEncodings_nonempty[of w] by simp
qed

function trimLeft :: "string \<Rightarrow> string" where
  "trimLeft s =
     (case find (\<lambda>w. prefix w s) spaceEncodings of
        None \<Rightarrow> s
      | Some w \<Rightarrow> trimLeft (drop (length w) s))"
  by pat_completeness auto
termination
proof (relation "measure length", simp)
  fix s w
  assume f: "find (\<lambda>w. prefix w s) spaceEncodings = Some w"
  then have "prefix w s" by (auto simp: find_Some_iff)
  then have "length w \<le> length s" by (rule prefix_length_le)
  with find_spaceEncodings_length[OF f]
  show "(drop (length w) s, s) \<in> measure length"
    by (simp del: length_greater_0_conv)
qed

function trimRight :: "string \<Rightarrow> string" where
  "trimRight s =
     (case find (\<lambda>w. suffix w s) spaceEncodings of
        None \<Rightarrow> s
      | Some w \<Rightarrow> trimRight (take (length s - length w) s))"
  by pat_completeness auto
termination
proof (relation "measure length", simp)
  fix s w
  assume f: "find (\<lambda>w. suffix w s) spaceEncodings = Some w"
  then have "suffix w s" by (auto simp: find_Some_iff)
  then have "length w \<le> length s" by (rule suffix_length_le)
  with find_spaceEncodings_length[OF f]
  show "(take (length s - length w) s, s) \<in> measure length"
    by (simp del: length_greater_0_conv)
qed

declare trimLeft.simps [simp del] trimRight.simps [simp del]

text \<open>
  The same equations split on the input, for evaluation: the recursive call is then
  unfolded only once the text it is applied to is known.
\<close>

lemma trimLeft_code [code]:
  "trimLeft [] = []"
  "trimLeft (c # cs) =
     (case find (\<lambda>w. prefix w (c # cs)) spaceEncodings of
        None \<Rightarrow> c # cs
      | Some w \<Rightarrow> trimLeft (drop (length w) (c # cs)))"
proof -
  have "find (\<lambda>w. prefix w []) spaceEncodings = None"
    by (auto simp: find_None_iff dest: spaceEncodings_nonempty)
  then show "trimLeft [] = []"
    by (subst trimLeft.simps) simp
  show "trimLeft (c # cs) =
     (case find (\<lambda>w. prefix w (c # cs)) spaceEncodings of
        None \<Rightarrow> c # cs
      | Some w \<Rightarrow> trimLeft (drop (length w) (c # cs)))"
    by (subst trimLeft.simps) (rule refl)
qed

lemma trimRight_code [code]:
  "trimRight [] = []"
  "trimRight (c # cs) =
     (case find (\<lambda>w. suffix w (c # cs)) spaceEncodings of
        None \<Rightarrow> c # cs
      | Some w \<Rightarrow> trimRight (take (length (c # cs) - length w) (c # cs)))"
proof -
  have "find (\<lambda>w. suffix w []) spaceEncodings = None"
    by (auto simp: find_None_iff dest: spaceEncodings_nonempty)
  then show "trimRight [] = []"
    by (subst trimRight.simps) simp
  show "trimRight (c # cs) =
     (case find (\<lambda>w. suffix w (c # cs)) spaceEncodings of
        None \<Rightarrow> c # cs
      | Some w \<Rightarrow> trimRight (take (length (c # cs) - length w) (c # cs)))"
    by (subst trimRight.simps) (rule refl)
qed

definition TrimSpace :: "string \<Rightarrow> string" where
  "TrimSpace s = trimRight (trimLeft s)"

text \<open>\<open>strings.Contains(s, substr)\<close>: \<open>substr\<close> starts at some position of \<open>s\<close>.\<close>

fun Contains :: "string \<Rightarrow> string \<Rightarrow> bool" where
  "Contains [] substr = (substr = [])"
| "Contains (c # cs) substr = (prefix substr (c # cs) \<or> Contains cs substr)"

text \<open>\<open>stripTags\<close> (main.go, 197-199).\<close>

definition stripTags :: "string \<Rightarrow> string" where
  "stripTags input = TrimSpace (replaceAllString input)"

subsection \<open>Tag stripping leaves no tag\<close>

text \<open>
  \<open>closes s\<close>: going through \<open>s\<close>, a \<open>>\<close> comes before any line feed. A tag matches
  at an opening \<open><\<close> exactly when what follows closes.
\<close>

fun closes :: "string \<Rightarrow> bool" where
  "closes [] = False"
| "closes (c # cs) = (c = CHR ''>'' \<or> (c \<noteq> LF \<and> closes cs))"

fun tagFree :: "string \<Rightarrow> bool" where
  "tagFree [] = True"
| "tagFree (c # cs) = (tagStripper (c # cs) = None \<and> tagFree cs)"

lemma lazyAny_closes:
  "lazyAny (lit ''>'' Some) s = None \<longleftrightarrow> \<not> closes s"
  by (induction s) (auto simp: lit_def split: option.splits)

lemma tagStripper_None:
  "tagStripper (c # cs) = None \<longleftrightarrow> \<not> (c = CHR ''<'' \<and> closes cs)"
  by (auto simp: tagStripper_def lit_def lazyAny_closes)

lemma closes_replaceAllString:
  "closes (replaceAllString s) \<Longrightarrow> closes s"
proof (induction s rule: replaceAllString.induct)
  case 1
  then show ?case by simp
next
  case (2 c cs)
  show ?case
  proof (cases "tagStripper (c # cs)")
    case None
    with 2 show ?thesis by auto
  next
    case (Some rest)
    then have "c = CHR ''<'' \<and> closes cs"
      using tagStripper_None[of c cs] by auto
    then show ?thesis by simp
  qed
qed

lemma tagFree_replaceAllString: "tagFree (replaceAllString s)"
proof (induction s rule: replaceAllString.induct)
  case 1
  then show ?case by simp
next
  case (2 c cs)
  show ?case
  proof (cases "tagStripper (c # cs)")
    case None
    then have "tagStripper (c # replaceAllString cs) = None"
      using closes_replaceAllString[of cs] by (auto simp: tagStripper_None)
    with None 2 show ?thesis by simp
  next
    case (Some rest)
    with 2 show ?thesis by simp
  qed
qed

lemma replaceAllString_tagFree: "tagFree s \<Longrightarrow> replaceAllString s = s"
  by (induction s) auto

lemma tagFree_drop: "tagFree s \<Longrightarrow> tagFree (drop n s)"
proof (induction s arbitrary: n)
  case Nil
  then show ?case by simp
next
  case (Cons c cs)
  then show ?case by (cases n) auto
qed

lemma closes_take: "closes (take n s) \<Longrightarrow> closes s"
proof (induction s arbitrary: n)
  case Nil
  then show ?case by simp
next
  case (Cons c cs)
  then show ?case by (cases n) auto
qed

lemma tagFree_take: "tagFree s \<Longrightarrow> tagFree (take n s)"
proof (induction s arbitrary: n)
  case Nil
  then show ?case by simp
next
  case (Cons c cs)
  show ?case
  proof (cases n)
    case 0
    then show ?thesis by simp
  next
    case (Suc m)
    from Cons.prems have "\<not> (c = CHR ''<'' \<and> closes cs)" and "tagFree cs"
      by (auto simp: tagStripper_None)
    then show ?thesis
      using Suc Cons.IH[of m] closes_take[of m cs]
      by (auto simp: tagStripper_None)
  qed
qed

lemma tagFree_trimLeft: "tagFree s \<Longrightarrow> tagFree (trimLeft s)"
proof (induction s rule: trimLeft.induct)
  case (1 s)
  then show ?case
    by (subst trimLeft.simps) (auto split: option.splits intro: tagFree_drop)
qed

lemma tagFree_trimRight: "tagFree s \<Longrightarrow> tagFree (trimRight s)"
proof (induction s rule: trimRight.induct)
  case (1 s)
  then show ?case
    by (subst trimRight.simps) (auto split: option.splits intro: tagFree_take)
qed

lemma tagFree_stripTags: "tagFree (stripTags s)"
  by (simp add: stripTags_def TrimSpace_def tagFree_trimRight tagFree_trimLeft
      tagFree_replaceAllString)

subsection \<open>Trimming leaves no white space at either end\<close>

lemma trimLeft_no_prefix:
  "find (\<lambda>w. prefix w (trimLeft s)) spaceEncodings = None"
proof (induction s rule: trimLeft.induct)
  case (1 s)
  then show ?case
    by (subst trimLeft.simps) (auto split: option.splits)
qed

lemma trimRight_no_suffix:
  "find (\<lambda>w. suffix w (trimRight s)) spaceEncodings = None"
proof (induction s rule: trimRight.induct)
  case (1 s)
  then show ?case
    by (subst trimRight.simps) (auto split: option.splits)
qed

lemma trimRight_prefix: "prefix (trimRight s) s"
proof (induction s rule: trimRight.induct)
  case (1 s)
  show ?case
  proof (cases "find (\<lambda>w. suffix w s) spaceEncodings")
    case None
    then show ?thesis by (subst trimRight.simps) simp
  next
    case (Some w)
    have "prefix (take (length s - length w) s) s"
      by (rule take_is_prefix)
    with 1[OF Some] Some show ?thesis
      by (subst trimRight.simps) (auto intro: prefix_order.trans)
  qed
qed

lemma trimRight_keeps_no_prefix:
  assumes "find (\<lambda>w. prefix w s) spaceEncodings = None"
  shows "find (\<lambda>w. prefix w (trimRight s)) spaceEncodings = None"
proof -
  have "\<not> prefix w (trimRight s)" if "w \<in> set spaceEncodings" for w
  proof
    assume "prefix w (trimRight s)"
    then have "prefix w s"
      using trimRight_prefix[of s] by (rule prefix_order.trans)
    with assms that show False by (auto simp: find_None_iff)
  qed
  then show ?thesis by (auto simp: find_None_iff)
qed

lemma TrimSpace_idem: "TrimSpace (TrimSpace s) = TrimSpace s"
proof -
  let ?z = "trimRight (trimLeft s)"
  have "find (\<lambda>w. prefix w ?z) spaceEncodings = None"
    by (rule trimRight_keeps_no_prefix) (rule trimLeft_no_prefix)
  then have l: "trimLeft ?z = ?z"
    by (subst trimLeft.simps) simp
  have "find (\<lambda>w. suffix w ?z) spaceEncodings = None"
    by (rule trimRight_no_suffix)
  then have "trimRight ?z = ?z"
    by (subst trimRight.simps) simp
  with l show ?thesis by (simp add: TrimSpace_def)
qed

section \<open>Numbers\<close>

subsection \<open>\<open>strconv.Atoi\<close>\<close>

text \<open>
  \<open>strconv.Atoi\<close> with a 64-bit \<open>int\<close>; the values of \<open>uint64\<close> and \<open>int\<close>
  are integers here, with the wrap-around of \<open>uint64\<close> written out. It returns a
  value and an error, and the value is meaningful also beside an error:
  \<open>extractPlayers\<close> reads it for the overall and age cells whatever the error is. Texts of 1 to 18 bytes take the fast path, every
  other text goes through \<open>ParseInt(s, 10, 0)\<close> and \<open>ParseUint\<close>.
\<close>

datatype numError = ErrSyntax | ErrRange

definition intSize :: nat where
  "intSize = 64"

definition isDigit :: "char \<Rightarrow> bool" where
  "isDigit c = (of_char (CHR ''0'') \<le> (of_char c :: int) \<and> (of_char c :: int) \<le> of_char (CHR ''9''))"

definition digitVal :: "char \<Rightarrow> int" where
  "digitVal c = of_char c - of_char (CHR ''0'')"

text \<open>
  The loop of \<open>ParseUint\<close> in base 10: a byte that is no decimal digit is a syntax
  error; a value that leaves the unsigned 64-bit range is a range error, returned with
  the largest value at once, before the bytes that follow are looked at.
\<close>

fun parseUintLoop :: "int \<Rightarrow> string \<Rightarrow> int \<times> numError option" where
  "parseUintLoop n [] = (n, None)"
| "parseUintLoop n (c # cs) =
     (let maxVal = 2 ^ intSize - 1; cutoff = (2 ^ 64 - 1) div 10 + 1 in
      if \<not> isDigit c then (0, Some ErrSyntax)
      else if cutoff \<le> n then (maxVal, Some ErrRange)
      else
        let n10 = n * 10; n1 = (n10 + digitVal c) mod 2 ^ 64 in
        if n1 < n10 \<or> maxVal < n1 then (maxVal, Some ErrRange)
        else parseUintLoop n1 cs)"

definition ParseUint :: "string \<Rightarrow> int \<times> numError option" where
  "ParseUint s = (if s = [] then (0, Some ErrSyntax) else parseUintLoop 0 s)"

definition ParseInt :: "string \<Rightarrow> int \<times> numError option" where
  "ParseInt s0 =
     (case s0 of
        [] \<Rightarrow> (0, Some ErrSyntax)
      | c # cs \<Rightarrow>
          let neg = (c = CHR ''-'');
              s = (if c = CHR ''+'' \<or> c = CHR ''-'' then cs else s0);
              (un, err) = ParseUint s;
              cutoff = 2 ^ (intSize - 1)
          in
            if err = Some ErrSyntax then (0, err)
            else if \<not> neg \<and> cutoff \<le> un then (cutoff - 1, Some ErrRange)
            else if neg \<and> cutoff < un then (- cutoff, Some ErrRange)
            else (if neg then - un else un, None))"

fun atoiLoop :: "int \<Rightarrow> string \<Rightarrow> int \<times> numError option" where
  "atoiLoop n [] = (n, None)"
| "atoiLoop n (ch # s) =
     (if \<not> isDigit ch then (0, Some ErrSyntax)
      else atoiLoop (n * 10 + digitVal ch) s)"

definition Atoi :: "string \<Rightarrow> int \<times> numError option" where
  "Atoi s0 =
     (if 0 < length s0 \<and> length s0 < 19 then
        let s = (if hd s0 = CHR ''-'' \<or> hd s0 = CHR ''+'' then tl s0 else s0) in
        if length s < 1 then (0, Some ErrSyntax)
        else
          case atoiLoop 0 s of
            (n, None) \<Rightarrow> (if hd s0 = CHR ''-'' then - n else n, None)
          | (n, Some e) \<Rightarrow> (0, Some e)
      else ParseInt s0)"

section \<open>The scraper\<close>

subsection \<open>Data structures\<close>

record Team =
  Name :: string
  URL :: string

record Player =
  Profile :: string
  Team :: string
  Price :: string
  Age :: int
  Overall :: int
  Potential :: int
  Growth :: int

text \<open>
  The fields of \<open>Scraper\<close> that the modelled code reads. Durations are in nanoseconds,
  as \<open>time.Duration\<close> is; the three compiled patterns are the matchers above.
\<close>

record Scraper =
  minPotential :: int
  minGrowth :: int
  outputFile :: string
  concurrency :: int
  minDelay :: int
  maxDelay :: int

definition second :: int where
  "second = 1000000000"

definition NewScraper :: Scraper where
  "NewScraper =
     \<lparr>minPotential = 70, minGrowth = 12, outputFile = ''high_potential_players.json'',
      concurrency = 3, minDelay = 2 * second, maxDelay = 5 * second\<rparr>"

subsection \<open>\<open>extractPlayers\<close>\<close>

text \<open>
  An index expression of Go panics out of range. \<open>submatch cols i j\<close> is \<open>cols[i][j]\<close>
  with both range checks.
\<close>

datatype panic = IndexOutOfRange | InvalidArgument

definition submatch :: "string list list \<Rightarrow> nat \<Rightarrow> nat \<Rightarrow> panic + string" where
  "submatch cols i j =
     (if i < length cols then
        (if j < length (cols ! i) then Inr (cols ! i ! j) else Inl IndexOutOfRange)
      else Inl IndexOutOfRange)"

text \<open>
  The body of the loop of \<open>extractPlayers\<close> (main.go, 158-191) on one row: a panic, or
  \<open>None\<close> where the body leaves by \<open>continue\<close>, or the player it appends.
\<close>

definition extractRow :: "Scraper \<Rightarrow> Team \<Rightarrow> string \<Rightarrow> panic + Player option" where
  "extractRow s team row =
     (let cols = findAllStringSubmatch row in
      if length cols < 6 then Inr None
      else
        case submatch cols 0 1 of Inl e \<Rightarrow> Inl e | Inr c0 \<Rightarrow>
        let profile = stripTags c0 in
        if Contains profile ''Loan'' then Inr None
        else
          case submatch cols 2 1 of Inl e \<Rightarrow> Inl e | Inr c2 \<Rightarrow>
          let (potential, err) = Atoi (stripTags c2) in
          if err \<noteq> None \<or> potential < minPotential s then Inr None
          else
            case submatch cols 3 1 of Inl e \<Rightarrow> Inl e | Inr c3 \<Rightarrow>
            let (growth, err) = Atoi (stripTags c3) in
            if err \<noteq> None \<or> growth < minGrowth s then Inr None
            else
              case submatch cols 1 1 of Inl e \<Rightarrow> Inl e | Inr c1 \<Rightarrow>
              let overall = fst (Atoi (stripTags c1)) in
              case submatch cols 4 1 of Inl e \<Rightarrow> Inl e | Inr c4 \<Rightarrow>
              let age = fst (Atoi (stripTags c4)) in
              case submatch cols 5 1 of Inl e \<Rightarrow> Inl e | Inr c5 \<Rightarrow>
              let price = stripTags c5 in
              Inr (Some \<lparr>Profile = profile, Team = Name team, Price = price, Age = age,
                          Overall = overall, Potential = potential, Growth = growth\<rparr>))"

text \<open>The loop over the rows, with the slice \<open>players\<close> it appends to.\<close>

fun extractLoop :: "Scraper \<Rightarrow> Team \<Rightarrow> Player list \<Rightarrow> string list \<Rightarrow> panic + Player list" where
  "extractLoop s team players [] = Inr players"
| "extractLoop s team players (row # rows) =
     (case extractRow s team row of
        Inl e \<Rightarrow> Inl e
      | Inr None \<Rightarrow> extractLoop s team players rows
      | Inr (Some p) \<Rightarrow> extractLoop s team (players @ [p]) rows)"

definition extractPlayers :: "Scraper \<Rightarrow> Team \<Rightarrow> string \<Rightarrow> panic + Player list" where
  "extractPlayers s team html = extractLoop s team [] (findAllString html)"

subsection \<open>What the loop of \<open>extractPlayers\<close> computes\<close>

text \<open>
  \<open>cell row i\<close> is the expression \<open>s.stripTags(cols[i][1])\<close> of the loop body, for
  \<open>i\<close> below the number of cells of the row. \<open>admitted s team row\<close> is the player
  the body appends for the row, \<open>None\<close> when it appends none.
\<close>

definition cell :: "string \<Rightarrow> nat \<Rightarrow> string" where
  "cell row i = stripTags (findAllStringSubmatch row ! i ! 1)"

definition admitted :: "Scraper \<Rightarrow> Team \<Rightarrow> string \<Rightarrow> Player option" where
  "admitted s team row = (case extractRow s team row of Inr (Some p) \<Rightarrow> Some p | _ \<Rightarrow> None)"

lemma findAllStringSubmatch_length:
  "m \<in> set (findAllStringSubmatch row) \<Longrightarrow> length m = 2"
  by (induction row rule: findAllStringSubmatch.induct) (auto split: option.splits)

lemma submatch_cell:
  assumes "i < length (findAllStringSubmatch row)"
  shows "submatch (findAllStringSubmatch row) i 1 = Inr (findAllStringSubmatch row ! i ! 1)"
proof -
  from assms have "findAllStringSubmatch row ! i \<in> set (findAllStringSubmatch row)"
    by (rule nth_mem)
  then have "length (findAllStringSubmatch row ! i) = 2"
    by (rule findAllStringSubmatch_length)
  with assms show ?thesis by (simp add: submatch_def)
qed

lemma extractRow_short:
  "length (findAllStringSubmatch row) < 6 \<Longrightarrow> extractRow s team row = Inr None"
  by (simp add: extractRow_def)

lemma extractRow_cells:
  assumes "6 \<le> length (findAllStringSubmatch row)"
  shows "extractRow s team row =
     Inr (if Contains (cell row 0) ''Loan'' then None
          else if snd (Atoi (cell row 2)) \<noteq> None \<or> fst (Atoi (cell row 2)) < minPotential s then None
          else if snd (Atoi (cell row 3)) \<noteq> None \<or> fst (Atoi (cell row 3)) < minGrowth s then None
          else Some \<lparr>Profile = cell row 0, Team = Name team, Price = cell row 5,
                     Age = fst (Atoi (cell row 4)), Overall = fst (Atoi (cell row 1)),
                     Potential = fst (Atoi (cell row 2)), Growth = fst (Atoi (cell row 3))\<rparr>)"
proof -
  have "submatch (findAllStringSubmatch row) i 1 = Inr (findAllStringSubmatch row ! i ! 1)"
    if "i < 6" for i
    using that assms by (intro submatch_cell) simp
  then show ?thesis
    using assms by (simp add: extractRow_def cell_def Let_def split: prod.splits)
qed

lemma extractRow_total: "\<exists>r. extractRow s team row = Inr r"
proof (cases "length (findAllStringSubmatch row) < 6")
  case True
  then show ?thesis by (simp add: extractRow_short)
next
  case False
  then have "6 \<le> length (findAllStringSubmatch row)" by simp
  from extractRow_cells[OF this] show ?thesis by blast
qed

lemma extractRow_admitted: "extractRow s team row = Inr (admitted s team row)"
  using extractRow_total[of s team row]
  by (auto simp: admitted_def split: option.splits)

lemma map_filter_append:
  "List.map_filter f (xs @ ys) = List.map_filter f xs @ List.map_filter f ys"
  by (simp add: List.map_filter_def)

lemma extractLoop_eq:
  "extractLoop s team players rows = Inr (players @ List.map_filter (admitted s team) rows)"
proof (induction rows arbitrary: players)
  case Nil
  then show ?case by (simp add: List.map_filter_simps)
next
  case (Cons row rows)
  show ?case
  proof (cases "admitted s team row")
    case None
    then show ?thesis
      by (simp add: extractRow_admitted Cons.IH List.map_filter_simps)
  next
    case (Some p)
    then show ?thesis
      by (simp add: extractRow_admitted Cons.IH List.map_filter_simps)
  qed
qed

lemma extractPlayers_eq:
  "extractPlayers s team html = Inr (List.map_filter (admitted s team) (findAllString html))"
  by (simp add: extractPlayers_def extractLoop_eq)

lemma extractLoop_skip:
  "admitted s team row = None \<Longrightarrow>
   extractLoop s team players (before @ row # after) = extractLoop s team players (before @ after)"
  by (simp add: extractLoop_eq map_filter_append List.map_filter_simps)

lemma map_filter_order:
  assumes "i < j" and "j < length xs" and "f (xs ! i) = Some p" and "f (xs ! j) = Some q"
  shows "\<exists>i' j'. i' < j' \<and> j' < length (List.map_filter f xs) \<and>
           List.map_filter f xs ! i' = p \<and> List.map_filter f xs ! j' = q"
proof -
  let ?ys = "drop (Suc i) xs"
  have xi: "xs = take i xs @ xs ! i # ?ys"
    using assms by (intro id_take_nth_drop) simp
  have j': "j - Suc i < length ?ys" using assms by simp
  have yj: "?ys = take (j - Suc i) ?ys @ ?ys ! (j - Suc i) # drop (Suc (j - Suc i)) ?ys"
    using j' by (rule id_take_nth_drop)
  have "?ys ! (j - Suc i) = xs ! j" using assms by simp
  with yj have yj': "?ys = take (j - Suc i) ?ys @ xs ! j # drop (Suc (j - Suc i)) ?ys"
    by simp
  define A where "A = List.map_filter f (take i xs)"
  define B where "B = List.map_filter f (take (j - Suc i) ?ys)"
  define C where "C = List.map_filter f (drop (Suc (j - Suc i)) ?ys)"
  have "List.map_filter f ?ys = B @ q # C"
    by (subst yj') (simp add: map_filter_append List.map_filter_simps assms B_def C_def)
  then have m: "List.map_filter f xs = A @ p # B @ q # C"
    by (subst xi) (simp add: map_filter_append List.map_filter_simps assms A_def)
  have "length A < length A + 1 + length B" by simp
  moreover have "length A + 1 + length B < length (List.map_filter f xs)"
    by (simp add: m)
  moreover have "List.map_filter f xs ! length A = p"
    by (simp add: m)
  moreover have "List.map_filter f xs ! (length A + 1 + length B) = q"
    by (simp add: m nth_append)
  ultimately show ?thesis by blast
qed

section \<open>Idempotence of tag stripping\<close>

text \<open>
  C6. Markup-tag stripping is idempotent: for every input string \<open>s\<close>,
  \<open>stripTags (stripTags s) = stripTags s\<close>.
\<close>

theorem stripTags_idempotent: "stripTags (stripTags s) = stripTags s"
proof -
  have "replaceAllString (stripTags s) = stripTags s"
    by (rule replaceAllString_tagFree) (rule tagFree_stripTags)
  then have "stripTags (stripTags s) = TrimSpace (stripTags s)"
    by (simp add: stripTags_def)
  also have "\<dots> = stripTags s"
    by (simp add: stripTags_def TrimSpace_idem)
  finally show ?thesis .
qed

end
